theory Spec2Isabelle
  imports Complex_Main
begin

section \<open>TaskWhiz: greedy resource allocation and priority scheduling\<close>

text \<open>
  A shallow embedding of the allocation core of \<^verbatim>\<open>app.py\<close>: the guard of
  \<^verbatim>\<open>generate_graph\<close>, the function \<^verbatim>\<open>greedy_coloring\<close>, and the body of the
  \<^verbatim>\<open>try\<close> block of \<^verbatim>\<open>main\<close> (the color map, the priority sort, the start-time
  loop, the Gantt rows, the chart loop and the overdue list).  Python integers are \<^typ>\<open>int\<close>, task
  indices are \<^typ>\<open>nat\<close>, the numpy adjacency matrix is a list of rows, the
  per-task dictionaries are partial maps, and every exception the code can raise is a
  value of \<open>py_error\<close>.
\<close>

subsection \<open>Errors\<close>

datatype py_error = IndexError | KeyError | ValueError | ZeroDivisionError

type_synonym 'a result = "py_error + 'a"

definition bind_result :: "'a result \<Rightarrow> ('a \<Rightarrow> 'b result) \<Rightarrow> 'b result" where
  "bind_result r f = (case r of Inl e \<Rightarrow> Inl e | Inr v \<Rightarrow> f v)"

subsection \<open>The adjacency matrix\<close>

type_synonym matrix = "int list list"

text \<open>\<^verbatim>\<open>np.where(row == 1)[0]\<close>: the positions of a row that hold exactly 1, ascending.\<close>

definition neighbors :: "int list \<Rightarrow> nat list" where
  "neighbors row = filter (\<lambda>j. row ! j = 1) [0..<length row]"

subsection \<open>Greedy coloring\<close>

text \<open>
  The inner \<^verbatim>\<open>while color in neighbor_colors: color += 1\<close>.  The Python set
  \<^verbatim>\<open>neighbor_colors\<close> is only tested for membership, so it is kept as the list
  of its elements.  The loop stops because only finitely many colors at or above the
  counter are in the set.
\<close>

function first_free :: "int list \<Rightarrow> int \<Rightarrow> int" where
  "first_free neighbor_colors color =
     (if color \<in> set neighbor_colors then first_free neighbor_colors (color + 1) else color)"
  by pat_completeness auto
termination
proof (relation "measure (\<lambda>(cs, c). card {x \<in> set cs. c \<le> x})")
  show "wf (measure (\<lambda>(cs, c). card {x \<in> set cs. c \<le> x}))" by simp
next
  fix neighbor_colors :: "int list" and color :: int
  assume mem: "color \<in> set neighbor_colors"
  have "color \<in> {x \<in> set neighbor_colors. color \<le> x}"
    and "color \<notin> {x \<in> set neighbor_colors. color + 1 \<le> x}"
    and "{x \<in> set neighbor_colors. color + 1 \<le> x} \<subseteq> {x \<in> set neighbor_colors. color \<le> x}"
    using mem by auto
  then have "{x \<in> set neighbor_colors. color + 1 \<le> x} \<subset> {x \<in> set neighbor_colors. color \<le> x}"
    by blast
  then have "card {x \<in> set neighbor_colors. color + 1 \<le> x} < card {x \<in> set neighbor_colors. color \<le> x}"
    by (intro psubset_card_mono) simp_all
  then show "((neighbor_colors, color + 1), (neighbor_colors, color))
      \<in> measure (\<lambda>(cs, c). card {x \<in> set cs. c \<le> x})"
    by simp
qed

declare first_free.simps [simp del]

text \<open>
  One pass of the body of \<^verbatim>\<open>for node in range(n_nodes)\<close>.  Reading
  \<^verbatim>\<open>colors[neighbor]\<close> raises IndexError when a row is longer than the list of
  colors and has a 1 beyond it; \<^verbatim>\<open>adj_matrix[node]\<close> cannot fail because
  \<open>node < len(adj_matrix)\<close>.
\<close>

definition color_node :: "matrix \<Rightarrow> int list \<Rightarrow> nat \<Rightarrow> int list result" where
  "color_node adj_matrix colors node =
     (let nbrs = neighbors (adj_matrix ! node) in
      if \<exists>neighbor \<in> set nbrs. length colors \<le> neighbor then Inl IndexError
      else
        let neighbor_colors = map (\<lambda>neighbor. colors ! neighbor)
                                (filter (\<lambda>neighbor. colors ! neighbor \<noteq> - 1) nbrs);
            color = first_free neighbor_colors 0
        in Inr (colors[node := color]))"

fun color_loop :: "matrix \<Rightarrow> nat list \<Rightarrow> int list \<Rightarrow> int list result" where
  "color_loop adj_matrix [] colors = Inr colors"
| "color_loop adj_matrix (node # rest) colors =
     bind_result (color_node adj_matrix colors node) (color_loop adj_matrix rest)"

definition greedy_coloring :: "matrix \<Rightarrow> int list result" where
  "greedy_coloring adj_matrix =
     (let n_nodes = length adj_matrix;
          colors = replicate n_nodes (- 1)
      in color_loop adj_matrix [0..<n_nodes] colors)"


subsection \<open>Graph generation and the call of the coloring\<close>

text \<open>
  \<^verbatim>\<open>generate_graph\<close>.  The random graph drawn by
  \<^verbatim>\<open>nx.fast_gnp_random_graph(n_nodes, prob)\<close> is a parameter: \<open>sample\<close> is
  its adjacency matrix.  The graph object itself is only drawn, so the pair
  \<^verbatim>\<open>(G, adj_matrix)\<close> is represented by the matrix and \<^verbatim>\<open>(None, None)\<close> by
  \<open>None\<close>.  The first component collects the messages passed to \<^verbatim>\<open>st.error\<close>.
\<close>

definition generate_graph :: "int \<Rightarrow> real \<Rightarrow> matrix \<Rightarrow> string list \<times> matrix option" where
  "generate_graph n_nodes prob sample =
     (if n_nodes < 1 then ([''Number of nodes must be at least 1!''], None)
      else if prob < 0 \<or> prob > 1 then ([''Graph density must be between 0 and 1!''], None)
      else ([], Some sample))"

text \<open>
  The part of \<^verbatim>\<open>main\<close> that obtains the matrix and calls the coloring: the
  coloring runs only in the \<^verbatim>\<open>else\<close> branch of the test for a missing graph.
\<close>

definition main_coloring :: "int \<Rightarrow> real \<Rightarrow> matrix \<Rightarrow> string list \<times> int list result option" where
  "main_coloring n_nodes prob sample =
     (case generate_graph n_nodes prob sample of
        (messages, None) \<Rightarrow>
          (messages @ [''Failed to generate the graph. Please check the parameters.''], None)
      | (messages, Some adj_matrix) \<Rightarrow> (messages, Some (greedy_coloring adj_matrix)))"

subsection \<open>Decimal rendering of integers in f-strings\<close>

definition digit_char :: "nat \<Rightarrow> char" where
  "digit_char d = char_of (48 + d)"

function str_nat :: "nat \<Rightarrow> string" where
  "str_nat n = (if n < 10 then [digit_char n] else str_nat (n div 10) @ [digit_char (n mod 10)])"
  by pat_completeness auto
termination
  by (relation "measure (\<lambda>n. n)") auto

declare str_nat.simps [simp del]

definition str_int :: "int \<Rightarrow> string" where
  "str_int i = (if i < 0 then CHR ''-'' # str_nat (nat (- i)) else str_nat (nat i))"

subsection \<open>The scheduler\<close>

type_synonym 'v dict = "nat \<rightharpoonup> 'v"

text \<open>
  \<^verbatim>\<open>sorted(range(n_nodes), key=lambda x: task_priorities[x])\<close>.  Python's
  \<^verbatim>\<open>sorted\<close> is a stable sort; it is represented by the stable insertion sort
  \<^const>\<open>sort_key\<close>.  A task without a priority raises KeyError.
\<close>

definition sorted_tasks :: "nat \<Rightarrow> int dict \<Rightarrow> nat list result" where
  "sorted_tasks n_nodes task_priorities =
     (if \<forall>x \<in> set [0..<n_nodes]. task_priorities x \<noteq> None
      then Inr (sort_key (\<lambda>x. the (task_priorities x)) [0..<n_nodes])
      else Inl KeyError)"

text \<open>\<^verbatim>\<open>{task: 0 for task in range(n_nodes)}\<close>\<close>

definition initial_start_times :: "nat \<Rightarrow> int dict" where
  "initial_start_times n_nodes = (\<lambda>task. if task < n_nodes then Some 0 else None)"

text \<open>Python's \<^verbatim>\<open>max\<close> of an iterable; an empty one raises ValueError.\<close>

fun py_max :: "int list \<Rightarrow> int result" where
  "py_max [] = Inl ValueError"
| "py_max (x # xs) = Inr (fold max xs x)"

text \<open>
  The body of \<^verbatim>\<open>for task in sorted_tasks\<close> in the start-time computation.  The
  generator \<^verbatim>\<open>start_times[dep] + task_duration[dep]\<close> raises KeyError at the first
  neighbor that is missing from either dictionary.
\<close>

definition schedule_task :: "matrix \<Rightarrow> int dict \<Rightarrow> int dict \<Rightarrow> nat \<Rightarrow> int dict result" where
  "schedule_task adj_matrix task_duration start_times task =
     (if length adj_matrix \<le> task then Inl IndexError
      else
        let dependent_tasks = neighbors (adj_matrix ! task) in
        if dependent_tasks \<noteq> [] then
          if \<forall>dep \<in> set dependent_tasks. start_times dep \<noteq> None \<and> task_duration dep \<noteq> None
          then bind_result
                 (py_max (map (\<lambda>dep. the (start_times dep) + the (task_duration dep))
                            dependent_tasks))
                 (\<lambda>m. Inr (start_times(task \<mapsto> m)))
          else Inl KeyError
        else Inr start_times)"

fun start_loop :: "matrix \<Rightarrow> int dict \<Rightarrow> nat list \<Rightarrow> int dict \<Rightarrow> int dict result" where
  "start_loop adj_matrix task_duration [] start_times = Inr start_times"
| "start_loop adj_matrix task_duration (task # rest) start_times =
     bind_result (schedule_task adj_matrix task_duration start_times task)
       (start_loop adj_matrix task_duration rest)"

text \<open>The priority sort followed by the start-time loop.\<close>

definition compute_start_times :: "nat \<Rightarrow> matrix \<Rightarrow> int dict \<Rightarrow> int dict \<Rightarrow> int dict result" where
  "compute_start_times n_nodes adj_matrix task_duration task_priorities =
     bind_result (sorted_tasks n_nodes task_priorities)
       (\<lambda>sorted. start_loop adj_matrix task_duration sorted (initial_start_times n_nodes))"

text \<open>One dictionary appended to \<^verbatim>\<open>gantt_data\<close>; its entries are evaluated in order.\<close>

record gantt_row =
  Task :: string
  Start :: int
  Finish :: int
  Resource :: string

definition gantt_row_of ::
  "string dict \<Rightarrow> int dict \<Rightarrow> int dict \<Rightarrow> int list \<Rightarrow> nat \<Rightarrow> gantt_row result" where
  "gantt_row_of task_descriptions start_times task_duration assigned_colors task =
     (if task_descriptions task = None \<or> start_times task = None \<or> task_duration task = None
      then Inl KeyError
      else if length assigned_colors \<le> task then Inl IndexError
      else Inr \<lparr>Task = the (task_descriptions task),
                Start = the (start_times task),
                Finish = the (start_times task) + the (task_duration task),
                Resource = ''Resource '' @ str_int (assigned_colors ! task + 1)\<rparr>)"

fun gantt_data ::
  "string dict \<Rightarrow> int dict \<Rightarrow> int dict \<Rightarrow> int list \<Rightarrow> nat list \<Rightarrow> gantt_row list result" where
  "gantt_data task_descriptions start_times task_duration assigned_colors [] = Inr []"
| "gantt_data task_descriptions start_times task_duration assigned_colors (task # rest) =
     bind_result (gantt_row_of task_descriptions start_times task_duration assigned_colors task)
       (\<lambda>row. bind_result
                 (gantt_data task_descriptions start_times task_duration assigned_colors rest)
                 (\<lambda>rows. Inr (row # rows)))"

text \<open>
  The list comprehension building \<^verbatim>\<open>overdue_tasks\<close>: the label
  \<^verbatim>\<open>f"Task {task + 1}"\<close> of every task, in the order of \<^verbatim>\<open>sorted_tasks\<close>,
  whose finish time exceeds its deadline.
\<close>

definition task_label :: "nat \<Rightarrow> string" where
  "task_label task = ''Task '' @ str_nat (task + 1)"

fun overdue_tasks :: "int dict \<Rightarrow> int dict \<Rightarrow> int dict \<Rightarrow> nat list \<Rightarrow> string list result" where
  "overdue_tasks start_times task_duration task_deadlines [] = Inr []"
| "overdue_tasks start_times task_duration task_deadlines (task # rest) =
     (if start_times task = None \<or> task_duration task = None \<or> task_deadlines task = None
      then Inl KeyError
      else bind_result (overdue_tasks start_times task_duration task_deadlines rest)
             (\<lambda>labels.
                Inr (if the (start_times task) + the (task_duration task) > the (task_deadlines task)
                     then task_label task # labels else labels)))"

text \<open>
  \<^verbatim>\<open>generate_color_map\<close>: a dictionary with the keys \<open>0, \<dots>, n_colors - 1\<close>.  The
  hex string matplotlib gives for entry \<open>i\<close> of its color map is the parameter
  \<open>cmap\<close>.
\<close>

definition generate_color_map :: "int \<Rightarrow> (int \<Rightarrow> string) \<Rightarrow> (int \<rightharpoonup> string)" where
  "generate_color_map n_colors cmap = (\<lambda>i. if 0 \<le> i \<and> i < n_colors then Some (cmap i) else None)"

text \<open>
  \<^verbatim>\<open>[color_map[assigned_colors[node] % n_colors] for node in range(n_nodes)]\<close>, the
  colors of the drawn nodes.  Python's \<^verbatim>\<open>%\<close> takes the sign of the divisor, as
  \<open>mod\<close> on \<^typ>\<open>int\<close> does, and raises ZeroDivisionError for a zero divisor.
\<close>

fun node_colors :: "(int \<rightharpoonup> string) \<Rightarrow> int list \<Rightarrow> int \<Rightarrow> nat list \<Rightarrow> string list result" where
  "node_colors color_map assigned_colors n_colors [] = Inr []"
| "node_colors color_map assigned_colors n_colors (node # rest) =
     (if length assigned_colors \<le> node then Inl IndexError
      else if n_colors = 0 then Inl ZeroDivisionError
      else case color_map (assigned_colors ! node mod n_colors) of
             None \<Rightarrow> Inl KeyError
           | Some color \<Rightarrow>
               bind_result (node_colors color_map assigned_colors n_colors rest)
                 (\<lambda>colors. Inr (color # colors)))"

text \<open>
  One bar added to the chart by the loop \<^verbatim>\<open>for task in sorted_tasks\<close> that follows
  the Gantt rows.  The row is read at the position \<^verbatim>\<open>gantt_data[task]\<close>, and the bar
  color is \<^verbatim>\<open>color_map[assigned_colors[task]]\<close>, without the modulo of
  \<^const>\<open>node_colors\<close>: a color that is not a key of the color map raises KeyError.
\<close>

record chart_bar =
  bar_x :: int
  bar_y :: string
  bar_base :: int
  bar_name :: string
  bar_color :: string

definition chart_bar_of ::
  "gantt_row list \<Rightarrow> (int \<rightharpoonup> string) \<Rightarrow> int list \<Rightarrow> nat \<Rightarrow> chart_bar result" where
  "chart_bar_of gantt color_map assigned_colors task =
     (if length gantt \<le> task then Inl IndexError
      else if length assigned_colors \<le> task then Inl IndexError
      else case color_map (assigned_colors ! task) of
             None \<Rightarrow> Inl KeyError
           | Some color \<Rightarrow>
               Inr \<lparr>bar_x = Finish (gantt ! task) - Start (gantt ! task),
                    bar_y = Task (gantt ! task),
                    bar_base = Start (gantt ! task),
                    bar_name = Resource (gantt ! task),
                    bar_color = color\<rparr>)"

fun chart_bars ::
  "gantt_row list \<Rightarrow> (int \<rightharpoonup> string) \<Rightarrow> int list \<Rightarrow> nat list \<Rightarrow> chart_bar list result" where
  "chart_bars gantt color_map assigned_colors [] = Inr []"
| "chart_bars gantt color_map assigned_colors (task # rest) =
     bind_result (chart_bar_of gantt color_map assigned_colors task)
       (\<lambda>bar. bind_result (chart_bars gantt color_map assigned_colors rest)
                 (\<lambda>bars. Inr (bar # bars)))"

text \<open>
  \<^verbatim>\<open>main\<close> from the priority sort to the Gantt rows.  Between the sort and the
  start-time loop the allocation table is built with one column per task from the
  single row \<^verbatim>\<open>assigned_colors\<close>; pandas raises ValueError when the two lengths
  differ.  The result keeps the three values the rest of \<^verbatim>\<open>main\<close> reads.
\<close>

definition schedule_rows ::
  "nat \<Rightarrow> matrix \<Rightarrow> int dict \<Rightarrow> int dict \<Rightarrow> string dict \<Rightarrow> int list
     \<Rightarrow> (nat list \<times> int dict \<times> gantt_row list) result" where
  "schedule_rows n_nodes adj_matrix task_duration task_priorities task_descriptions
       assigned_colors =
     bind_result (sorted_tasks n_nodes task_priorities) (\<lambda>sorted.
     if length assigned_colors \<noteq> n_nodes then Inl ValueError
     else
     bind_result (start_loop adj_matrix task_duration sorted (initial_start_times n_nodes))
       (\<lambda>start_times.
     bind_result (gantt_data task_descriptions start_times task_duration assigned_colors sorted)
       (\<lambda>gantt. Inr (sorted, start_times, gantt))))"

text \<open>
  \<^verbatim>\<open>main\<close> from the priority sort to the overdue list, in the order it runs: the
  rows, then the chart loop, then the overdue list.  An exception anywhere leaves the
  \<^verbatim>\<open>try\<close> block, so after a KeyError in the chart loop no overdue list is built.
\<close>

definition schedule ::
  "nat \<Rightarrow> (int \<rightharpoonup> string) \<Rightarrow> matrix \<Rightarrow> int dict \<Rightarrow> int dict \<Rightarrow> int dict \<Rightarrow> string dict
     \<Rightarrow> int list \<Rightarrow> (gantt_row list \<times> chart_bar list \<times> string list) result" where
  "schedule n_nodes color_map adj_matrix task_duration task_deadlines task_priorities
       task_descriptions assigned_colors =
     bind_result
       (schedule_rows n_nodes adj_matrix task_duration task_priorities task_descriptions
          assigned_colors)
       (\<lambda>(sorted, start_times, gantt).
     bind_result (chart_bars gantt color_map assigned_colors sorted) (\<lambda>chart.
     bind_result (overdue_tasks start_times task_duration task_deadlines sorted)
       (\<lambda>overdue. Inr (gantt, chart, overdue))))"

text \<open>
  The body of the \<^verbatim>\<open>try\<close> block of \<^verbatim>\<open>main\<close>: the coloring of the generated
  matrix, the color map and the node colors, then the schedule.
\<close>

definition main_allocation ::
  "nat \<Rightarrow> int \<Rightarrow> (int \<Rightarrow> string) \<Rightarrow> matrix \<Rightarrow> int dict \<Rightarrow> int dict \<Rightarrow> int dict \<Rightarrow> string dict
     \<Rightarrow> (gantt_row list \<times> chart_bar list \<times> string list) result" where
  "main_allocation n_nodes n_colors cmap adj_matrix task_duration task_deadlines
       task_priorities task_descriptions =
     bind_result (greedy_coloring adj_matrix) (\<lambda>assigned_colors.
     let color_map = generate_color_map n_colors cmap in
     bind_result (node_colors color_map assigned_colors n_colors [0..<n_nodes]) (\<lambda>drawn.
     schedule n_nodes color_map adj_matrix task_duration task_deadlines task_priorities
       task_descriptions assigned_colors))"

subsection \<open>Vocabulary of the properties\<close>

text \<open>A matrix with as many columns in every row as it has rows.\<close>

definition square :: "matrix \<Rightarrow> bool" where
  "square A \<longleftrightarrow> (\<forall>row \<in> set A. length row = length A)"

definition symmetric :: "matrix \<Rightarrow> bool" where
  "symmetric A \<longleftrightarrow> (\<forall>i \<in> set [0..<length A]. \<forall>j \<in> set [0..<length A]. A ! i ! j = A ! j ! i)"

definition zero_diagonal :: "matrix \<Rightarrow> bool" where
  "zero_diagonal A \<longleftrightarrow> (\<forall>i \<in> set [0..<length A]. A ! i ! i = 0)"

text \<open>An edge is an entry 1, as \<^const>\<open>neighbors\<close> reads the matrix.\<close>

definition edge :: "matrix \<Rightarrow> nat \<Rightarrow> nat \<Rightarrow> bool" where
  "edge A i j \<longleftrightarrow> i < length A \<and> j < length A \<and> A ! i ! j = 1"

definition degree :: "matrix \<Rightarrow> nat \<Rightarrow> nat" where
  "degree A i = length (neighbors (A ! i))"

definition max_degree :: "matrix \<Rightarrow> nat" where
  "max_degree A = fold max (map (degree A) [0..<length A]) 0"

text \<open>The matrix with every diagonal entry overwritten by 0.\<close>

definition clear_diagonal :: "matrix \<Rightarrow> matrix" where
  "clear_diagonal A = map (\<lambda>i. (A ! i)[i := 0]) [0..<length A]"

text \<open>
  The colors that an assignment \<open>cs\<close> gives to the neighbors of node \<open>i\<close> with a
  smaller index, in the order of the row.
\<close>

definition earlier_neighbor_colors :: "matrix \<Rightarrow> int list \<Rightarrow> nat \<Rightarrow> int list" where
  "earlier_neighbor_colors A cs i =
     map (\<lambda>j. cs ! j) (filter (\<lambda>j. j < i) (neighbors (A ! i)))"

text \<open>
  The priority order: ascending priority, ties by ascending task index.
\<close>

definition priority_before :: "int dict \<Rightarrow> nat \<Rightarrow> nat \<Rightarrow> bool" where
  "priority_before task_priorities a b \<longleftrightarrow>
     the (task_priorities a) < the (task_priorities b)
     \<or> (the (task_priorities a) = the (task_priorities b) \<and> a < b)"

text \<open>Task \<open>d\<close> is visited before task \<open>t\<close> in the sequence \<open>order\<close>.\<close>

definition visited_before :: "nat list \<Rightarrow> nat \<Rightarrow> nat \<Rightarrow> bool" where
  "visited_before order d t \<longleftrightarrow> d \<in> set (takeWhile (\<lambda>x. x \<noteq> t) order)"

text \<open>
  The neighbor set of task \<open>t\<close> read from the adjacency relation: the tasks \<open>d\<close>
  with entry \<open>adj(t, d) = 1\<close>.
\<close>

definition adjacent :: "matrix \<Rightarrow> nat \<Rightarrow> nat set" where
  "adjacent adj_matrix t = {d \<in> set [0..<length adj_matrix]. adj_matrix ! t ! d = 1}"

text \<open>
  The start-time rule read on the final start times: a task with an empty neighbor
  set starts at 0; otherwise it starts at the largest \<open>start + duration\<close> of its
  neighbors, where a neighbor visited earlier counts with its start time and any other
  neighbor with the initial 0 it still had when the task was visited.
\<close>

definition start_rule :: "matrix \<Rightarrow> int dict \<Rightarrow> nat list \<Rightarrow> int dict \<Rightarrow> nat \<Rightarrow> int" where
  "start_rule adj_matrix task_duration order start_times t =
     (if adjacent adj_matrix t = {} then 0
      else Max ((\<lambda>d. (if visited_before order d t then the (start_times d) else 0)
                       + the (task_duration d)) ` adjacent adj_matrix t))"

text \<open>The row that \<^const>\<open>gantt_row_of\<close> builds when nothing is missing.\<close>

definition expected_row ::
  "string dict \<Rightarrow> int dict \<Rightarrow> int dict \<Rightarrow> int list \<Rightarrow> nat \<Rightarrow> gantt_row" where
  "expected_row task_descriptions start_times task_duration assigned_colors task =
     \<lparr>Task = the (task_descriptions task),
      Start = the (start_times task),
      Finish = the (start_times task) + the (task_duration task),
      Resource = ''Resource '' @ str_int (assigned_colors ! task + 1)\<rparr>"

definition is_overdue :: "int dict \<Rightarrow> int dict \<Rightarrow> int dict \<Rightarrow> nat \<Rightarrow> bool" where
  "is_overdue start_times task_duration task_deadlines task \<longleftrightarrow>
     the (start_times task) + the (task_duration task) > the (task_deadlines task)"

text \<open>
  The inputs \<^verbatim>\<open>main\<close> hands to the scheduler: an \<open>n_nodes\<close> by \<open>n_nodes\<close> matrix,
  the four dictionaries filled for every task, and one color per task.
\<close>

definition well_formed ::
  "nat \<Rightarrow> matrix \<Rightarrow> int dict \<Rightarrow> int dict \<Rightarrow> int dict \<Rightarrow> string dict \<Rightarrow> int list \<Rightarrow> bool" where
  "well_formed n_nodes adj_matrix task_duration task_deadlines task_priorities task_descriptions
       assigned_colors \<longleftrightarrow>
     length adj_matrix = n_nodes \<and> square adj_matrix
     \<and> (\<forall>task \<in> set [0..<n_nodes].
           task_duration task \<noteq> None \<and> task_deadlines task \<noteq> None
         \<and> task_priorities task \<noteq> None \<and> task_descriptions task \<noteq> None)
     \<and> length assigned_colors = n_nodes"

text \<open>The start and finish of every row, in output order.\<close>

definition row_numbers :: "gantt_row list \<Rightarrow> (int \<times> int) list" where
  "row_numbers gantt = map (\<lambda>row. (Start row, Finish row)) gantt"

text \<open>
  The numbers of a schedule: start and finish of every row and the overdue list.
  Descriptions, resource labels and the chart are dropped.
\<close>

definition timeline ::
  "(gantt_row list \<times> chart_bar list \<times> string list) result
     \<Rightarrow> ((int \<times> int) list \<times> string list) result" where
  "timeline r =
     (case r of Inl e \<Rightarrow> Inl e
      | Inr (gantt, chart, overdue) \<Rightarrow> Inr (row_numbers gantt, overdue))"

text \<open>Every assigned color is a key of the color map.\<close>

definition colors_in_map :: "nat \<Rightarrow> (int \<rightharpoonup> string) \<Rightarrow> int list \<Rightarrow> bool" where
  "colors_in_map n_nodes color_map assigned_colors \<longleftrightarrow>
     (\<forall>task \<in> set [0..<n_nodes]. color_map (assigned_colors ! task) \<noteq> None)"

text \<open>The visiting order and the numbers of the rows, once the rows are built.\<close>

definition rows_of ::
  "(nat list \<times> int dict \<times> gantt_row list) result \<Rightarrow> (nat list \<times> (int \<times> int) list) result" where
  "rows_of r =
     (case r of Inl e \<Rightarrow> Inl e
      | Inr (tasks, start_times, gantt) \<Rightarrow> Inr (tasks, row_numbers gantt))"

definition start_of :: "int dict result \<Rightarrow> nat \<Rightarrow> int option" where
  "start_of r task = (case r of Inl e \<Rightarrow> None | Inr start_times \<Rightarrow> start_times task)"

text \<open>Reading a decimal numeral back, to tell task labels apart.\<close>

definition nat_of_str :: "string \<Rightarrow> nat" where
  "nat_of_str s = foldl (\<lambda>a c. 10 * a + (of_char c - 48)) 0 s"

subsection \<open>Example inputs\<close>

text \<open>The path 0 - 1 - 2 and the star with centre 0 and leaves 1 and 2.\<close>

definition path3 :: matrix where
  "path3 = [[0, 1, 0], [1, 0, 1], [0, 1, 0]]"

definition star3 :: matrix where
  "star3 = [[0, 1, 1], [1, 0, 0], [1, 0, 0]]"

text \<open>
  Two tasks joined by one edge, durations 2 and 2, priorities 1 and 2; deadlines and
  descriptions are added to run the whole scheduler, and a second set of descriptions
  to compare two runs.
\<close>

definition sc3_adj :: matrix where
  "sc3_adj = [[0, 1], [1, 0]]"

definition sc3_duration :: "int dict" where
  "sc3_duration = [0 \<mapsto> 2, 1 \<mapsto> 2]"

definition sc3_priorities :: "int dict" where
  "sc3_priorities = [0 \<mapsto> 1, 1 \<mapsto> 2]"

definition sc3_deadlines :: "int dict" where
  "sc3_deadlines = [0 \<mapsto> 10, 1 \<mapsto> 5]"

definition sc3_descriptions :: "string dict" where
  "sc3_descriptions = [0 \<mapsto> ''Task 1'', 1 \<mapsto> ''Task 2'']"


text \<open>
  The triangle, with duration 1, deadline 1 and priority 1 for each of its three tasks,
  and a color map that only matters through its keys.
\<close>

definition k3 :: matrix where
  "k3 = [[0, 1, 1], [1, 0, 1], [1, 1, 0]]"

definition ones3 :: "int dict" where
  "ones3 = [0 \<mapsto> 1, 1 \<mapsto> 1, 2 \<mapsto> 1]"

definition hex_of :: "int \<Rightarrow> string" where
  "hex_of i = CHR ''#'' # str_int i"

text \<open>Three tasks on the path, the last two sharing the best priority.\<close>

definition tie_priorities :: "int dict" where
  "tie_priorities = [0 \<mapsto> 2, 1 \<mapsto> 1, 2 \<mapsto> 1]"

definition tie_duration :: "int dict" where
  "tie_duration = [0 \<mapsto> 3, 1 \<mapsto> 3, 2 \<mapsto> 3]"

definition tie_deadlines :: "int dict" where
  "tie_deadlines = [0 \<mapsto> 10, 1 \<mapsto> 10, 2 \<mapsto> 10]"

definition tie_descriptions :: "string dict" where
  "tie_descriptions = [0 \<mapsto> ''Task 1'', 1 \<mapsto> ''Task 2'', 2 \<mapsto> ''Task 3'']"

section \<open>Properties of the coloring\<close>

lemma first_free_ge: "color \<le> first_free cs color"
  by (induction cs color rule: first_free.induct) (subst first_free.simps, auto)

lemma first_free_notin: "first_free cs color \<notin> set cs"
  by (induction cs color rule: first_free.induct) (subst first_free.simps, simp)

lemma first_free_below: "color \<le> x \<Longrightarrow> x < first_free cs color \<Longrightarrow> x \<in> set cs"
proof (induction cs color rule: first_free.induct)
  case (1 cs color)
  show ?case
  proof (cases "color \<in> set cs")
    case True
    then have ff: "first_free cs color = first_free cs (color + 1)"
      by (subst first_free.simps) simp
    show ?thesis
    proof (cases "x = color")
      case True
      with \<open>color \<in> set cs\<close> show ?thesis by simp
    next
      case False
      with 1 True ff show ?thesis by simp
    qed
  next
    case False
    then have "first_free cs color = color" by (subst first_free.simps) simp
    with 1(2,3) show ?thesis by simp
  qed
qed

lemma first_free_bound: "first_free cs 0 \<le> int (length cs)"
proof (rule ccontr)
  assume "\<not> first_free cs 0 \<le> int (length cs)"
  then have lt: "int (length cs) < first_free cs 0" by simp
  have "int ` {0..length cs} \<subseteq> set cs"
  proof
    fix x assume "x \<in> int ` {0..length cs}"
    then have "0 \<le> x" "x < first_free cs 0" using lt by auto
    then show "x \<in> set cs" by (rule first_free_below)
  qed
  then have "card (int ` {0..length cs}) \<le> card (set cs)"
    by (intro card_mono) simp_all
  moreover have "card (int ` {0..length cs}) = length cs + 1"
    by (simp add: card_image)
  moreover have "card (set cs) \<le> length cs" by (rule card_length)
  ultimately show False by simp
qed

lemma bind_result_Inr [simp]: "bind_result (Inr v) f = f v"
  by (simp add: bind_result_def)

lemma bind_result_Inl [simp]: "bind_result (Inl e) f = Inl e"
  by (simp add: bind_result_def)

lemma neighbors_iff: "j \<in> set (neighbors row) \<longleftrightarrow> j < length row \<and> row ! j = 1"
  by (auto simp: neighbors_def)

lemma color_loop_upt:
  assumes "k \<le> n" and "length cs = n"
    and "\<forall>i<n. \<forall>j \<in> set (neighbors (A ! i)). j < n"
    and "\<forall>j<k. cs ! j \<noteq> - 1"
    and "\<forall>j. k \<le> j \<and> j < n \<longrightarrow> cs ! j = - 1"
  shows "\<exists>fs. color_loop A [k..<n] cs = Inr fs \<and> length fs = n
           \<and> (\<forall>j<k. fs ! j = cs ! j)
           \<and> (\<forall>i. k \<le> i \<and> i < n \<longrightarrow> fs ! i = first_free (earlier_neighbor_colors A fs i) 0)"
  using assms
proof (induction "n - k" arbitrary: k cs)
  case 0
  then have "k = n" by simp
  with 0 show ?case by simp
next
  case (Suc d)
  then have kn: "k < n" by simp
  define nbrs where "nbrs = neighbors (A ! k)"
  define c where "c = first_free (map (\<lambda>j. cs ! j) (filter (\<lambda>j. cs ! j \<noteq> - 1) nbrs)) 0"
  define cs' where "cs' = cs[k := c]"
  have nb_lt: "\<forall>j \<in> set nbrs. j < n" using Suc.prems(3) kn by (simp add: nbrs_def)
  have step: "color_node A cs k = Inr cs'"
    using nb_lt Suc.prems(2) by (auto simp: color_node_def Let_def nbrs_def[symmetric] c_def cs'_def)
  have c_nonneg: "0 \<le> c" unfolding c_def by (rule first_free_ge)
  have "\<exists>fs. color_loop A [Suc k..<n] cs' = Inr fs \<and> length fs = n
           \<and> (\<forall>j<Suc k. fs ! j = cs' ! j)
           \<and> (\<forall>i. Suc k \<le> i \<and> i < n \<longrightarrow> fs ! i = first_free (earlier_neighbor_colors A fs i) 0)"
  proof (rule Suc.hyps(1))
    show "d = n - Suc k" using Suc.hyps(2) by simp
    show "Suc k \<le> n" using kn by simp
    show "length cs' = n" using Suc.prems(2) by (simp add: cs'_def)
    show "\<forall>i<n. \<forall>j \<in> set (neighbors (A ! i)). j < n" by (rule Suc.prems(3))
    show "\<forall>j<Suc k. cs' ! j \<noteq> - 1"
      using Suc.prems(2,4) kn c_nonneg by (auto simp: cs'_def nth_list_update less_Suc_eq)
    show "\<forall>j. Suc k \<le> j \<and> j < n \<longrightarrow> cs' ! j = - 1"
      using Suc.prems(5) by (simp add: cs'_def)
  qed
  then obtain fs where fs: "color_loop A [Suc k..<n] cs' = Inr fs" "length fs = n"
    "\<forall>j<Suc k. fs ! j = cs' ! j"
    "\<forall>i. Suc k \<le> i \<and> i < n \<longrightarrow> fs ! i = first_free (earlier_neighbor_colors A fs i) 0"
    by blast
  have run: "color_loop A [k..<n] cs = Inr fs"
    using kn step fs(1) by (simp add: upt_conv_Cons)
  have old: "\<forall>j<k. fs ! j = cs ! j"
    using fs(3) by (simp add: cs'_def)
  have filt: "filter (\<lambda>j. cs ! j \<noteq> - 1) nbrs = filter (\<lambda>j. j < k) nbrs"
  proof (rule filter_cong[OF refl])
    fix j assume "j \<in> set nbrs"
    then have "j < n" using nb_lt by simp
    then show "(cs ! j \<noteq> - 1) = (j < k)"
      using Suc.prems(4,5) by (cases "j < k") auto
  qed
  have meq: "map (\<lambda>j. cs ! j) (filter (\<lambda>j. j < k) nbrs) = map (\<lambda>j. fs ! j) (filter (\<lambda>j. j < k) nbrs)"
    using old by (intro map_cong) simp_all
  have "c = first_free (map (\<lambda>j. cs ! j) (filter (\<lambda>j. j < k) nbrs)) 0"
    by (simp only: c_def filt)
  also have "\<dots> = first_free (map (\<lambda>j. fs ! j) (filter (\<lambda>j. j < k) nbrs)) 0"
    by (simp only: meq)
  also have "\<dots> = first_free (earlier_neighbor_colors A fs k) 0"
    by (simp only: earlier_neighbor_colors_def nbrs_def)
  finally have "c = first_free (earlier_neighbor_colors A fs k) 0" .
  moreover have "fs ! k = c"
    using fs(3) kn Suc.prems(2) by (simp add: cs'_def)
  ultimately have atk: "fs ! k = first_free (earlier_neighbor_colors A fs k) 0" by simp
  have "\<forall>i. k \<le> i \<and> i < n \<longrightarrow> fs ! i = first_free (earlier_neighbor_colors A fs i) 0"
  proof (intro allI impI)
    fix i assume "k \<le> i \<and> i < n"
    then show "fs ! i = first_free (earlier_neighbor_colors A fs i) 0"
      using atk fs(4) by (cases "i = k") auto
  qed
  with run fs(2) old show ?case by blast
qed

lemma square_neighbors_lt:
  assumes "square A" "i < length A" "j \<in> set (neighbors (A ! i))"
  shows "j < length A"
  using assms by (auto simp: square_def neighbors_iff)

lemma greedy_coloring_square:
  assumes "square A"
  shows "\<exists>cs. greedy_coloring A = Inr cs \<and> length cs = length A
           \<and> (\<forall>i<length A. cs ! i = first_free (earlier_neighbor_colors A cs i) 0)"
proof -
  have "\<exists>fs. color_loop A [0..<length A] (replicate (length A) (- 1)) = Inr fs \<and> length fs = length A
           \<and> (\<forall>j<0. fs ! j = replicate (length A) (- 1) ! j)
           \<and> (\<forall>i. 0 \<le> i \<and> i < length A \<longrightarrow> fs ! i = first_free (earlier_neighbor_colors A fs i) 0)"
    using assms by (intro color_loop_upt) (auto dest: square_neighbors_lt)
  then show ?thesis by (auto simp: greedy_coloring_def)
qed


lemma degree_le_max_degree:
  assumes "i < length A"
  shows "degree A i \<le> max_degree A"
proof -
  have "max_degree A = Max (set (0 # map (degree A) [0..<length A]))"
    by (simp only: max_degree_def Max.set_eq_fold)
  moreover have "degree A i \<in> set (0 # map (degree A) [0..<length A])"
    using assms by simp
  ultimately show ?thesis by (metis Max_ge List.finite_set)
qed

lemma earlier_neighbor_colors_length:
  "length (earlier_neighbor_colors A cs i) \<le> degree A i"
  by (simp add: earlier_neighbor_colors_def degree_def)

lemma earlier_neighbor_colors_set:
  "set (earlier_neighbor_colors A cs i) = {cs ! j | j. j < i \<and> j < length (A ! i) \<and> A ! i ! j = 1}"
  by (auto simp: earlier_neighbor_colors_def neighbors_iff)

text \<open>
  Claim C1 (proper coloring).  On every square adjacency matrix that is symmetric and
  has a zero diagonal, of any size and any density, \<^const>\<open>greedy_coloring\<close> returns an
  assignment with one color per node, and the two ends of every edge \<open>(i, j)\<close> get
  different colors.
\<close>

theorem proper_coloring:
  assumes "square A" and "symmetric A" and "zero_diagonal A"
  shows "\<exists>colors. greedy_coloring A = Inr colors \<and> length colors = length A
           \<and> (\<forall>i j. edge A i j \<longrightarrow> colors ! i \<noteq> colors ! j)"
proof -
  from greedy_coloring_square[OF assms(1)] obtain cs where cs:
    "greedy_coloring A = Inr cs" "length cs = length A"
    "\<forall>i<length A. cs ! i = first_free (earlier_neighbor_colors A cs i) 0"
    by blast
  have later: "cs ! a \<noteq> cs ! b" if "a < b" "b < length A" "A ! b ! a = 1" for a b
  proof -
    have "length (A ! b) = length A" using assms(1) that(2) by (simp add: square_def)
    then have "cs ! a \<in> set (earlier_neighbor_colors A cs b)"
      using that by (auto simp: earlier_neighbor_colors_set)
    moreover have "cs ! b \<notin> set (earlier_neighbor_colors A cs b)"
      using cs(3) that(2) first_free_notin by metis
    ultimately show ?thesis by metis
  qed
  have "cs ! i \<noteq> cs ! j" if e: "edge A i j" for i j
  proof -
    from e have ij: "i < length A" "j < length A" "A ! i ! j = 1" by (simp_all add: edge_def)
    then have sym: "A ! j ! i = 1" using assms(2) by (simp add: symmetric_def)
    have "i \<noteq> j" using ij assms(3) by (auto simp: zero_diagonal_def)
    then consider "i < j" | "j < i" by linarith
    then show ?thesis
    proof cases
      case 1
      from later[OF 1 ij(2) sym] show ?thesis .
    next
      case 2
      from later[OF 2 ij(1) ij(3)] show ?thesis by simp
    qed
  qed
  then have "\<forall>i j. edge A i j \<longrightarrow> cs ! i \<noteq> cs ! j" by blast
  with cs(1,2) show ?thesis by blast
qed

text \<open>The hypotheses of C1 hold on the star with centre 0 and leaves 1 and 2.\<close>

theorem proper_coloring_witness:
  "square star3 \<and> symmetric star3 \<and> zero_diagonal star3 \<and> edge star3 0 2
   \<and> (\<exists>colors. greedy_coloring star3 = Inr colors \<and> length colors = length star3
        \<and> (\<forall>i j. edge star3 i j \<longrightarrow> colors ! i \<noteq> colors ! j))"
proof -
  have sq: "square star3" by (simp add: square_def star3_def)
  have sy: "symmetric star3" by code_simp
  have zd: "zero_diagonal star3" by code_simp
  have ed: "edge star3 0 2" by (simp add: edge_def star3_def)
  from proper_coloring[OF sq sy zd] sq sy zd ed show ?thesis by blast
qed

text \<open>
  Claim C2 (the greedy rule).  On every square matrix the coloring returns, and the
  color of node \<open>i\<close> is the smallest non-negative integer that is not the color of a
  neighbor of \<open>i\<close> with a smaller index: nodes are colored in increasing order, so these
  are exactly the neighbors colored so far, and later neighbors contribute nothing.
  On the path 0 - 1 - 2 the result is 0, 1, 0.
\<close>

theorem greedy_smallest_free_color:
  assumes sq: "square A"
  shows "(\<exists>colors. greedy_coloring A = Inr colors \<and> length colors = length A
           \<and> (\<forall>i<length A.
                 0 \<le> colors ! i
               \<and> colors ! i \<notin> {colors ! j | j. j < i \<and> A ! i ! j = 1}
               \<and> (\<forall>c. 0 \<le> c \<and> c < colors ! i
                     \<longrightarrow> c \<in> {colors ! j | j. j < i \<and> A ! i ! j = 1})))
       \<and> greedy_coloring [[0, 1, 0], [1, 0, 1], [0, 1, 0]] = Inr [0, 1, 0]"
proof
  from greedy_coloring_square[OF sq] obtain cs where cs:
    "greedy_coloring A = Inr cs" "length cs = length A"
    "\<forall>i<length A. cs ! i = first_free (earlier_neighbor_colors A cs i) 0"
    by blast
  have "0 \<le> cs ! i \<and> cs ! i \<notin> {cs ! j | j. j < i \<and> A ! i ! j = 1}
      \<and> (\<forall>c. 0 \<le> c \<and> c < cs ! i \<longrightarrow> c \<in> {cs ! j | j. j < i \<and> A ! i ! j = 1})"
    if i: "i < length A" for i
  proof -
    have len: "length (A ! i) = length A" using sq i by (simp add: square_def)
    have set_eq: "set (earlier_neighbor_colors A cs i) = {cs ! j | j. j < i \<and> A ! i ! j = 1}"
      using i len by (auto simp: earlier_neighbor_colors_set)
    have ci: "cs ! i = first_free (earlier_neighbor_colors A cs i) 0" using cs(3) i by simp
    have "0 \<le> cs ! i" unfolding ci by (rule first_free_ge)
    moreover have "cs ! i \<notin> set (earlier_neighbor_colors A cs i)"
      unfolding ci by (rule first_free_notin)
    moreover have "\<forall>c. 0 \<le> c \<and> c < cs ! i \<longrightarrow> c \<in> set (earlier_neighbor_colors A cs i)"
      unfolding ci using first_free_below by blast
    ultimately show ?thesis unfolding set_eq by blast
  qed
  with cs(1,2) show "\<exists>colors. greedy_coloring A = Inr colors \<and> length colors = length A
           \<and> (\<forall>i<length A.
                 0 \<le> colors ! i
               \<and> colors ! i \<notin> {colors ! j | j. j < i \<and> A ! i ! j = 1}
               \<and> (\<forall>c. 0 \<le> c \<and> c < colors ! i
                     \<longrightarrow> c \<in> {colors ! j | j. j < i \<and> A ! i ! j = 1}))"
    by blast
next
  show "greedy_coloring [[0, 1, 0], [1, 0, 1], [0, 1, 0]] = Inr [0, 1, 0]"
    by code_simp
qed

text \<open>The hypothesis of C2 holds on the path 0 - 1 - 2 of its example.\<close>

theorem greedy_smallest_free_color_witness:
  "square path3
   \<and> ((\<exists>colors. greedy_coloring path3 = Inr colors \<and> length colors = length path3
        \<and> (\<forall>i<length path3.
               0 \<le> colors ! i
             \<and> colors ! i \<notin> {colors ! j | j. j < i \<and> path3 ! i ! j = 1}
             \<and> (\<forall>c. 0 \<le> c \<and> c < colors ! i
                   \<longrightarrow> c \<in> {colors ! j | j. j < i \<and> path3 ! i ! j = 1})))
      \<and> greedy_coloring [[0, 1, 0], [1, 0, 1], [0, 1, 0]] = Inr [0, 1, 0])"
proof -
  have sq: "square path3" by (simp add: square_def path3_def)
  from sq greedy_smallest_free_color[OF sq] show ?thesis by (rule conjI)
qed

text \<open>
  Claim C6 (color bound).  On every square, symmetric, zero-diagonal adjacency matrix
  no color assigned by \<^const>\<open>greedy_coloring\<close> exceeds the largest number of
  neighbors of a node.
\<close>

theorem color_bound:
  assumes "square A" and "symmetric A" and "zero_diagonal A"
  shows "\<exists>colors. greedy_coloring A = Inr colors \<and> length colors = length A
           \<and> (\<forall>c \<in> set colors. c \<le> int (max_degree A))"
proof -
  from greedy_coloring_square[OF assms(1)] obtain cs where cs:
    "greedy_coloring A = Inr cs" "length cs = length A"
    "\<forall>i<length A. cs ! i = first_free (earlier_neighbor_colors A cs i) 0"
    by blast
  have "c \<le> int (max_degree A)" if "c \<in> set cs" for c
  proof -
    from that obtain i where i: "i < length A" "c = cs ! i"
      using cs(2) by (auto simp: in_set_conv_nth)
    have "c \<le> int (length (earlier_neighbor_colors A cs i))"
      using cs(3) i first_free_bound by simp
    also have "\<dots> \<le> int (degree A i)"
      using earlier_neighbor_colors_length by simp
    also have "\<dots> \<le> int (max_degree A)"
      using degree_le_max_degree[OF i(1)] by simp
    finally show ?thesis .
  qed
  with cs(1,2) show ?thesis by blast
qed

text \<open>The hypotheses of C6 hold on the star, whose largest degree is 2.\<close>

theorem color_bound_witness:
  "square star3 \<and> symmetric star3 \<and> zero_diagonal star3 \<and> max_degree star3 = 2
   \<and> (\<exists>colors. greedy_coloring star3 = Inr colors \<and> length colors = length star3
        \<and> (\<forall>c \<in> set colors. c \<le> int (max_degree star3)))"
proof -
  have sq: "square star3" by (simp add: square_def star3_def)
  have sy: "symmetric star3" by code_simp
  have zd: "zero_diagonal star3" by code_simp
  have md: "max_degree star3 = 2" by code_simp
  from color_bound[OF sq sy zd] sq sy zd md show ?thesis by blast
qed

lemma neighbors_clear:
  "neighbors (row[k := 0]) = filter (\<lambda>j. j \<noteq> k) (neighbors row)"
proof -
  have "filter (\<lambda>j. row[k := 0] ! j = 1) [0..<length row]
      = filter (\<lambda>j. j \<noteq> k \<and> row ! j = 1) [0..<length row]"
  proof (rule filter_cong[OF refl])
    fix j assume "j \<in> set [0..<length row]"
    then show "(row[k := 0] ! j = 1) = (j \<noteq> k \<and> row ! j = 1)"
      by (cases "j = k") simp_all
  qed
  then show ?thesis by (simp add: neighbors_def conj_commute)
qed

lemma color_node_clear:
  assumes "k < length cs" and "cs ! k = - 1" and "k < length A"
  shows "color_node (clear_diagonal A) cs k = color_node A cs k"
proof -
  have row: "clear_diagonal A ! k = (A ! k)[k := 0]"
    using assms(3) by (simp add: clear_diagonal_def)
  have ex: "(\<exists>nb \<in> set (filter (\<lambda>j. j \<noteq> k) (neighbors (A ! k))). length cs \<le> nb)
        = (\<exists>nb \<in> set (neighbors (A ! k)). length cs \<le> nb)"
    using assms(1) by auto
  have fl: "filter (\<lambda>nb. cs ! nb \<noteq> - 1) (filter (\<lambda>j. j \<noteq> k) (neighbors (A ! k)))
        = filter (\<lambda>nb. cs ! nb \<noteq> - 1) (neighbors (A ! k))"
    unfolding filter_filter by (rule filter_cong) (use assms(2) in auto)
  show ?thesis
    unfolding color_node_def row neighbors_clear Let_def ex fl ..
qed

lemma color_loop_clear:
  assumes "k \<le> n" and "length cs = n" and "length A = n"
    and "\<forall>j. k \<le> j \<and> j < n \<longrightarrow> cs ! j = - 1"
  shows "color_loop (clear_diagonal A) [k..<n] cs = color_loop A [k..<n] cs"
  using assms
proof (induction "n - k" arbitrary: k cs)
  case 0
  then show ?case by simp
next
  case (Suc d)
  then have kn: "k < n" by simp
  have step: "color_node (clear_diagonal A) cs k = color_node A cs k"
    using kn Suc.prems by (intro color_node_clear) simp_all
  show ?case
  proof (cases "color_node A cs k")
    case (Inl e)
    with step kn show ?thesis by (simp add: upt_conv_Cons)
  next
    case (Inr cs')
    then have len: "length cs' = n" and keep: "\<forall>j. j \<noteq> k \<longrightarrow> cs' ! j = cs ! j"
      using Suc.prems(2) by (auto simp: color_node_def Let_def split: if_splits)
    have "color_loop (clear_diagonal A) [Suc k..<n] cs' = color_loop A [Suc k..<n] cs'"
    proof (rule Suc.hyps(1))
      show "d = n - Suc k" using Suc.hyps(2) by simp
      show "Suc k \<le> n" using kn by simp
      show "length cs' = n" by (rule len)
      show "length A = n" by (rule Suc.prems(3))
      show "\<forall>j. Suc k \<le> j \<and> j < n \<longrightarrow> cs' ! j = - 1"
        using keep Suc.prems(4) by simp
    qed
    with Inr step kn show ?thesis by (simp add: upt_conv_Cons)
  qed
qed

text \<open>
  Claim C10 (the diagonal is irrelevant).  For every matrix, also one with entries 1 on
  its diagonal, \<^const>\<open>greedy_coloring\<close> gives the same result, error or assignment,
  as on the matrix with the diagonal overwritten by 0: a node is still uncolored when
  its own row is read.
\<close>

theorem diagonal_irrelevant:
  "greedy_coloring (clear_diagonal A) = greedy_coloring A"
proof -
  have "length (clear_diagonal A) = length A" by (simp add: clear_diagonal_def)
  moreover have "color_loop (clear_diagonal A) [0..<length A] (replicate (length A) (- 1))
      = color_loop A [0..<length A] (replicate (length A) (- 1))"
    by (rule color_loop_clear) simp_all
  ultimately show ?thesis by (simp add: greedy_coloring_def)
qed

section \<open>Properties of the scheduler\<close>

lemma priority_before_insort:
  assumes "sorted_wrt (priority_before p) ys" and "\<forall>y \<in> set ys. x < y"
  shows "sorted_wrt (priority_before p) (insort_key (\<lambda>x. the (p x)) x ys)"
  using assms
proof (induction ys)
  case Nil
  then show ?case by simp
next
  case (Cons y ys)
  show ?case
  proof (cases "the (p x) \<le> the (p y)")
    case True
    have "priority_before p x z" if "z \<in> set (y # ys)" for z
    proof -
      have "the (p y) \<le> the (p z)"
        using that Cons.prems(1) by (auto simp: priority_before_def)
      moreover have "x < z" using that Cons.prems(2) by auto
      ultimately show ?thesis using True by (auto simp: priority_before_def)
    qed
    with True Cons.prems(1) show ?thesis by simp
  next
    case False
    then have "priority_before p y x" by (simp add: priority_before_def)
    moreover have "sorted_wrt (priority_before p) (insort_key (\<lambda>x. the (p x)) x ys)"
      using Cons by simp
    ultimately show ?thesis using False Cons.prems(1) by (auto simp: set_insort_key)
  qed
qed

lemma priority_before_sort_key:
  assumes "sorted_wrt (<) xs"
  shows "sorted_wrt (priority_before p) (sort_key (\<lambda>x. the (p x)) xs)"
  using assms
proof (induction xs)
  case Nil
  then show ?case by simp
next
  case (Cons x xs)
  then have "sorted_wrt (priority_before p) (sort_key (\<lambda>x. the (p x)) xs)"
    and "\<forall>y \<in> set (sort_key (\<lambda>x. the (p x)) xs). x < y"
    by simp_all
  then show ?case by (simp add: priority_before_insort)
qed

lemma sorted_tasks_Inr:
  assumes "\<forall>t<n. p t \<noteq> None"
  shows "sorted_tasks n p = Inr (sort_key (\<lambda>x. the (p x)) [0..<n])"
  using assms by (simp add: sorted_tasks_def)

lemma sorted_tasks_props:
  assumes "sorted_tasks n p = Inr order"
  shows "set order = {0..<n}" and "distinct order" and "length order = n"
    and "sorted_wrt (priority_before p) order"
    and "filter (\<lambda>t. the (p t) = k) order = filter (\<lambda>t. the (p t) = k) [0..<n]"
proof -
  from assms have ord: "order = sort_key (\<lambda>x. the (p x)) [0..<n]"
    by (simp add: sorted_tasks_def split: if_splits)
  show "set order = {0..<n}" "distinct order" "length order = n" by (simp_all add: ord)
  have "sorted_wrt (<) [0..<n]" by (simp add: sorted_wrt_upt)
  then show "sorted_wrt (priority_before p) order"
    unfolding ord by (rule priority_before_sort_key)
  show "filter (\<lambda>t. the (p t) = k) order = filter (\<lambda>t. the (p t) = k) [0..<n]"
    unfolding ord by (rule sort_key_stable)
qed

lemma priority_before_irrefl: "\<not> priority_before p a a"
  by (simp add: priority_before_def)

lemma priority_before_asym: "priority_before p a b \<Longrightarrow> \<not> priority_before p b a"
  by (auto simp: priority_before_def)

lemma visited_before_sorted:
  assumes "sorted_wrt (priority_before p) order" and "d \<in> set order" and "t \<in> set order"
  shows "visited_before order d t \<longleftrightarrow> priority_before p d t"
proof -
  define front where "front = takeWhile (\<lambda>x. x \<noteq> t) order"
  define suffix where "suffix = dropWhile (\<lambda>x. x \<noteq> t) order"
  have decomp: "order = front @ suffix" by (simp add: front_def suffix_def)
  have "suffix \<noteq> []" using assms(3) by (auto simp: suffix_def dropWhile_eq_Nil_conv)
  moreover have "hd suffix = t"
    using assms(3) hd_dropWhile[of "\<lambda>x. x \<noteq> t" order]
    by (auto simp: suffix_def dropWhile_eq_Nil_conv)
  ultimately obtain rest where suffix: "suffix = t # rest" by (cases suffix) auto
  have sw: "sorted_wrt (priority_before p) (front @ t # rest)"
    using assms(1) decomp suffix by simp
  show ?thesis
  proof
    assume "visited_before order d t"
    then have "d \<in> set front" by (simp add: visited_before_def front_def)
    with sw show "priority_before p d t" by (auto simp: sorted_wrt_append)
  next
    assume pb: "priority_before p d t"
    show "visited_before order d t"
    proof (rule ccontr)
      assume "\<not> visited_before order d t"
      then have "d \<notin> set front" by (simp add: visited_before_def front_def)
      then have "d \<in> set (t # rest)" using assms(2) decomp suffix by auto
      then have "d = t \<or> priority_before p t d"
        using sw by (auto simp: sorted_wrt_append)
      with pb show False using priority_before_irrefl priority_before_asym by blast
    qed
  qed
qed

lemma py_max_nonempty:
  assumes "xs \<noteq> []"
  shows "py_max xs = Inr (Max (set xs))"
proof (cases xs)
  case Nil
  with assms show ?thesis by simp
next
  case (Cons a list)
  have "Max (set (a # list)) = fold max list a" by (rule Max.set_eq_fold)
  with Cons show ?thesis by (simp only: py_max.simps)
qed

lemma schedule_task_defined:
  assumes "t < length A"
    and "\<forall>d \<in> set (neighbors (A ! t)). st d \<noteq> None \<and> dur d \<noteq> None"
  shows "schedule_task A dur st t =
     Inr (if neighbors (A ! t) = [] then st
          else st(t \<mapsto> Max ((\<lambda>d. the (st d) + the (dur d)) ` set (neighbors (A ! t)))))"
proof (cases "neighbors (A ! t) = []")
  case True
  with assms(1) show ?thesis by (simp add: schedule_task_def)
next
  case False
  then have "py_max (map (\<lambda>d. the (st d) + the (dur d)) (neighbors (A ! t)))
      = Inr (Max ((\<lambda>d. the (st d) + the (dur d)) ` set (neighbors (A ! t))))"
    by (simp add: py_max_nonempty)
  with False assms show ?thesis by (simp add: schedule_task_def Let_def)
qed

lemma start_loop_snoc:
  "start_loop A dur (xs @ [t]) st =
     bind_result (start_loop A dur xs st) (\<lambda>st'. schedule_task A dur st' t)"
proof (induction xs arbitrary: st)
  case Nil
  show ?case by (cases "schedule_task A dur st t") simp_all
next
  case (Cons x xs)
  then show ?case by (cases "schedule_task A dur st x") simp_all
qed

lemma visited_before_last:
  assumes "t \<notin> set xs"
  shows "visited_before (xs @ [t]) d t \<longleftrightarrow> d \<in> set xs"
proof -
  have "takeWhile (\<lambda>x. x \<noteq> t) (xs @ [t]) = xs"
    using assms by (subst takeWhile_append2) auto
  then show ?thesis by (simp add: visited_before_def)
qed

lemma visited_before_earlier:
  assumes "u \<in> set xs"
  shows "visited_before (xs @ ys) d u \<longleftrightarrow> visited_before xs d u"
proof -
  have "takeWhile (\<lambda>x. x \<noteq> u) (xs @ ys) = takeWhile (\<lambda>x. x \<noteq> u) xs"
    using assms by (intro takeWhile_append1[of u]) simp_all
  then show ?thesis by (simp add: visited_before_def)
qed

lemma visited_before_mem: "visited_before xs d u \<Longrightarrow> d \<in> set xs"
  by (auto simp: visited_before_def dest: set_takeWhileD)

lemma neighbors_adjacent:
  assumes "square A" and "t < length A"
  shows "set (neighbors (A ! t)) = adjacent A t"
proof -
  have "length (A ! t) = length A" using assms by (simp add: square_def)
  then show ?thesis by (auto simp: adjacent_def neighbors_iff)
qed

lemma start_loop_rule:
  assumes "square A" and "length A = n" and "\<forall>t<n. dur t \<noteq> None"
    and "distinct order" and "set order \<subseteq> {0..<n}"
  shows "\<exists>st. start_loop A dur order (initial_start_times n) = Inr st
           \<and> (\<forall>t. st t \<noteq> None \<longleftrightarrow> t < n)
           \<and> (\<forall>t. t \<notin> set order \<longrightarrow> st t = initial_start_times n t)
           \<and> (\<forall>t \<in> set order. st t = Some (start_rule A dur order st t))"
  using assms(4,5)
proof (induction order rule: rev_induct)
  case Nil
  show ?case by (simp add: initial_start_times_def)
next
  case (snoc t xs)
  then have t: "t \<notin> set xs" "t < n" and "distinct xs" "set xs \<subseteq> {0..<n}" by auto
  with snoc.IH obtain st where st:
    "start_loop A dur xs (initial_start_times n) = Inr st"
    "\<forall>u. st u \<noteq> None \<longleftrightarrow> u < n"
    "\<forall>u. u \<notin> set xs \<longrightarrow> st u = initial_start_times n u"
    "\<forall>u \<in> set xs. st u = Some (start_rule A dur xs st u)"
    by blast
  define nbrs where "nbrs = neighbors (A ! t)"
  have nb_lt: "\<forall>d \<in> set nbrs. d < n"
    using assms(1,2) t(2) by (auto simp: nbrs_def dest: square_neighbors_lt)
  have nb_adj: "set nbrs = adjacent A t"
    unfolding nbrs_def using assms(1,2) t(2) by (intro neighbors_adjacent) simp_all
  then have nb_empty: "nbrs = [] \<longleftrightarrow> adjacent A t = {}"
    by (metis set_empty)
  define st' where "st' = (if nbrs = [] then st
      else st(t \<mapsto> Max ((\<lambda>d. the (st d) + the (dur d)) ` set nbrs)))"
  have "schedule_task A dur st t = Inr st'"
    unfolding st'_def nbrs_def
    using t(2) assms(2,3) st(2) nb_lt by (intro schedule_task_defined) (auto simp: nbrs_def)
  then have run: "start_loop A dur (xs @ [t]) (initial_start_times n) = Inr st'"
    using st(1) by (simp add: start_loop_snoc)
  have other: "st' u = st u" if "u \<noteq> t" for u
    using that by (simp add: st'_def)
  have dom: "\<forall>u. st' u \<noteq> None \<longleftrightarrow> u < n"
    using st(2) t(2) by (auto simp: st'_def)
  have untouched: "\<forall>u. u \<notin> set (xs @ [t]) \<longrightarrow> st' u = initial_start_times n u"
    using st(3) other by simp
  have at_t: "st' t = Some (start_rule A dur (xs @ [t]) st' t)"
  proof (cases "nbrs = []")
    case True
    then have "st' t = initial_start_times n t" using st(3) t(1) by (simp add: st'_def)
    with True t(2) nb_empty show ?thesis
      by (simp add: start_rule_def initial_start_times_def)
  next
    case False
    have "the (st d) = (if visited_before (xs @ [t]) d t then the (st' d) else 0)"
      if "d \<in> set nbrs" for d
    proof (cases "d \<in> set xs")
      case True
      then have "d \<noteq> t" using t(1) by auto
      with True t(1) show ?thesis by (simp add: visited_before_last other)
    next
      case False
      then have "st d = Some 0"
        using st(3) nb_lt that by (simp add: initial_start_times_def)
      with False t(1) show ?thesis by (simp add: visited_before_last)
    qed
    then have "(\<lambda>d. the (st d) + the (dur d)) ` set nbrs
        = (\<lambda>d. (if visited_before (xs @ [t]) d t then the (st' d) else 0) + the (dur d)) ` set nbrs"
      by (intro image_cong) simp_all
    then have img: "Max ((\<lambda>d. the (st d) + the (dur d)) ` set nbrs)
        = Max ((\<lambda>d. (if visited_before (xs @ [t]) d t then the (st' d) else 0) + the (dur d)) ` set nbrs)"
      by (rule arg_cong)
    have "st' t = Some (Max ((\<lambda>d. the (st d) + the (dur d)) ` set nbrs))"
      using False by (simp add: st'_def)
    also have "\<dots> = Some (start_rule A dur (xs @ [t]) st' t)"
      unfolding img using False nb_empty by (simp add: start_rule_def nb_adj)
    finally show ?thesis .
  qed
  have at_xs: "st' u = Some (start_rule A dur (xs @ [t]) st' u)" if u: "u \<in> set xs" for u
  proof -
    have ut: "u \<noteq> t" using u t(1) by auto
    have "(if visited_before xs d u then the (st d) else 0)
        = (if visited_before (xs @ [t]) d u then the (st' d) else 0)" for d
    proof (cases "visited_before xs d u")
      case True
      then have "d \<noteq> t" using t(1) visited_before_mem by blast
      with True u show ?thesis by (simp add: visited_before_earlier other)
    next
      case False
      with u show ?thesis by (simp add: visited_before_earlier)
    qed
    then have "start_rule A dur xs st u = start_rule A dur (xs @ [t]) st' u"
      by (simp add: start_rule_def)
    with st(4) u ut show ?thesis by (simp add: other)
  qed
  have "\<forall>u \<in> set (xs @ [t]). st' u = Some (start_rule A dur (xs @ [t]) st' u)"
    using at_t at_xs by auto
  with run dom untouched show ?case by blast
qed

lemma nat_of_str_snoc: "nat_of_str (s @ [c]) = 10 * nat_of_str s + (of_char c - 48)"
  by (simp add: nat_of_str_def)

lemma nat_of_digit: "d < 10 \<Longrightarrow> of_char (digit_char d) - 48 = d"
  by (simp add: digit_char_def)

lemma nat_of_str_str_nat: "nat_of_str (str_nat n) = n"
proof (induction n rule: str_nat.induct)
  case (1 n)
  show ?case
  proof (cases "n < 10")
    case True
    then have "str_nat n = [digit_char n]" by (subst str_nat.simps) simp
    then have "nat_of_str (str_nat n) = of_char (digit_char n) - 48"
      by (simp add: nat_of_str_def)
    with True show ?thesis by (simp add: nat_of_digit)
  next
    case False
    then have "str_nat n = str_nat (n div 10) @ [digit_char (n mod 10)]"
      by (subst str_nat.simps) simp
    then have "nat_of_str (str_nat n) = 10 * nat_of_str (str_nat (n div 10)) + (of_char (digit_char (n mod 10)) - 48)"
      by (simp add: nat_of_str_snoc)
    also have "\<dots> = 10 * (n div 10) + n mod 10"
      using 1 False by (simp add: nat_of_digit)
    finally show ?thesis by simp
  qed
qed

lemma task_label_inj: "task_label a = task_label b \<Longrightarrow> a = b"
proof -
  assume "task_label a = task_label b"
  then have "str_nat (a + 1) = str_nat (b + 1)" by (simp add: task_label_def)
  then have "nat_of_str (str_nat (a + 1)) = nat_of_str (str_nat (b + 1))" by simp
  then show "a = b" by (simp add: nat_of_str_str_nat)
qed

lemma gantt_data_defined:
  assumes "\<forall>t \<in> set order. descr t \<noteq> None \<and> st t \<noteq> None \<and> dur t \<noteq> None \<and> t < length colors"
  shows "gantt_data descr st dur colors order = Inr (map (expected_row descr st dur colors) order)"
  using assms
  by (induction order) (simp_all add: gantt_row_of_def expected_row_def)

lemma overdue_tasks_defined:
  assumes "\<forall>t \<in> set order. st t \<noteq> None \<and> dur t \<noteq> None \<and> dl t \<noteq> None"
  shows "overdue_tasks st dur dl order = Inr (map task_label (filter (is_overdue st dur dl) order))"
  using assms
  by (induction order) (simp_all add: is_overdue_def)

lemma chart_bars_defined:
  assumes "\<forall>t \<in> set order. t < length gantt \<and> t < length colors \<and> cm (colors ! t) \<noteq> None"
  shows "\<exists>chart. chart_bars gantt cm colors order = Inr chart"
  using assms
proof (induction order)
  case Nil
  show ?case by simp
next
  case (Cons t order)
  then obtain chart where "chart_bars gantt cm colors order = Inr chart" by auto
  moreover from Cons.prems obtain c where "cm (colors ! t) = Some c" by auto
  ultimately show ?case using Cons.prems by (simp add: chart_bar_of_def)
qed

lemma chart_bars_key_error:
  assumes "\<forall>t \<in> set order. t < length gantt \<and> t < length colors"
    and "\<exists>t \<in> set order. cm (colors ! t) = None"
  shows "chart_bars gantt cm colors order = Inl KeyError"
  using assms
proof (induction order)
  case Nil
  then show ?case by simp
next
  case (Cons t order)
  show ?case
  proof (cases "cm (colors ! t)")
    case None
    with Cons.prems(1) show ?thesis by (simp add: chart_bar_of_def)
  next
    case (Some c)
    with Cons.prems(2) have "\<exists>u \<in> set order. cm (colors ! u) = None" by auto
    with Cons.IH Cons.prems(1) have "chart_bars gantt cm colors order = Inl KeyError" by simp
    with Some Cons.prems(1) show ?thesis by (simp add: chart_bar_of_def)
  qed
qed

lemma schedule_rows_defined:
  assumes "well_formed n A dur dl prio descr colors"
  shows "\<exists>order st.
      sorted_tasks n prio = Inr order
    \<and> compute_start_times n A dur prio = Inr st
    \<and> (\<forall>t. st t \<noteq> None \<longleftrightarrow> t < n)
    \<and> (\<forall>t<n. st t = Some (start_rule A dur order st t))
    \<and> schedule_rows n A dur prio descr colors
        = Inr (order, st, map (expected_row descr st dur colors) order)"
proof -
  from assms have wf: "length A = n" "square A" "length colors = n"
    "\<forall>t<n. dur t \<noteq> None" "\<forall>t<n. prio t \<noteq> None" "\<forall>t<n. descr t \<noteq> None"
    by (simp_all add: well_formed_def)
  define order where "order = sort_key (\<lambda>x. the (prio x)) [0..<n]"
  have sorted: "sorted_tasks n prio = Inr order"
    unfolding order_def using wf(5) by (rule sorted_tasks_Inr)
  have ord: "set order = {0..<n}" "distinct order"
    using sorted_tasks_props(1,2)[OF sorted] .
  from start_loop_rule[OF wf(2,1,4) ord(2)] ord(1) obtain st where st:
    "start_loop A dur order (initial_start_times n) = Inr st"
    "\<forall>t. st t \<noteq> None \<longleftrightarrow> t < n"
    "\<forall>t \<in> set order. st t = Some (start_rule A dur order st t)"
    by auto
  have cst: "compute_start_times n A dur prio = Inr st"
    using sorted st(1) by (simp add: compute_start_times_def)
  have rule: "\<forall>t<n. st t = Some (start_rule A dur order st t)"
    using st(3) ord(1) by simp
  have "gantt_data descr st dur colors order = Inr (map (expected_row descr st dur colors) order)"
    using wf ord(1) st(2) by (intro gantt_data_defined) simp
  then have "schedule_rows n A dur prio descr colors
        = Inr (order, st, map (expected_row descr st dur colors) order)"
    using sorted st(1) wf(3) by (simp add: schedule_rows_def)
  with sorted cst st(2) rule show ?thesis by blast
qed

text \<open>
  When the chart loop runs: on well-formed inputs \<^const>\<open>schedule\<close> reaches the overdue
  list exactly when every assigned color is a key of the color map, and ends in
  KeyError otherwise.
\<close>

lemma schedule_completes:
  assumes "well_formed n A dur dl prio descr colors" and "colors_in_map n cm colors"
  shows "\<exists>order st chart.
      schedule_rows n A dur prio descr colors
        = Inr (order, st, map (expected_row descr st dur colors) order)
    \<and> sorted_tasks n prio = Inr order
    \<and> schedule n cm A dur dl prio descr colors
        = Inr (map (expected_row descr st dur colors) order, chart,
               map task_label (filter (is_overdue st dur dl) order))"
proof -
  from schedule_rows_defined[OF assms(1)] obtain order st where s:
    "sorted_tasks n prio = Inr order"
    "\<forall>t. st t \<noteq> None \<longleftrightarrow> t < n"
    "schedule_rows n A dur prio descr colors
        = Inr (order, st, map (expected_row descr st dur colors) order)"
    by blast
  from assms(1) have wf: "length colors = n" "\<forall>t<n. dur t \<noteq> None" "\<forall>t<n. dl t \<noteq> None"
    by (simp_all add: well_formed_def)
  have ord: "set order = {0..<n}" "length order = n"
    using sorted_tasks_props(1,3)[OF s(1)] .
  have "\<exists>chart. chart_bars (map (expected_row descr st dur colors) order) cm colors order = Inr chart"
    using ord wf(1) assms(2) by (intro chart_bars_defined) (simp add: colors_in_map_def)
  then obtain chart where
    chart: "chart_bars (map (expected_row descr st dur colors) order) cm colors order = Inr chart"
    by blast
  have over: "overdue_tasks st dur dl order
      = Inr (map task_label (filter (is_overdue st dur dl) order))"
    using wf ord(1) s(2) by (intro overdue_tasks_defined) simp
  have "schedule n cm A dur dl prio descr colors
        = Inr (map (expected_row descr st dur colors) order, chart,
               map task_label (filter (is_overdue st dur dl) order))"
    by (simp add: schedule_def s(3) chart over)
  with s(1,3) show ?thesis by blast
qed

lemma schedule_aborts:
  assumes "well_formed n A dur dl prio descr colors" and "\<not> colors_in_map n cm colors"
  shows "schedule n cm A dur dl prio descr colors = Inl KeyError"
proof -
  from schedule_rows_defined[OF assms(1)] obtain order st where s:
    "sorted_tasks n prio = Inr order"
    "schedule_rows n A dur prio descr colors
        = Inr (order, st, map (expected_row descr st dur colors) order)"
    by blast
  from assms(1) have wf: "length colors = n" by (simp add: well_formed_def)
  have ord: "set order = {0..<n}" "length order = n"
    using sorted_tasks_props(1,3)[OF s(1)] .
  have "chart_bars (map (expected_row descr st dur colors) order) cm colors order = Inl KeyError"
    using ord wf assms(2) by (intro chart_bars_key_error) (auto simp: colors_in_map_def)
  then show ?thesis by (simp add: schedule_def s(2))
qed

lemma adjacent_entries:
  assumes "length A = n"
  shows "adjacent A t = {d. d < n \<and> A ! t ! d = 1}"
  using assms by (auto simp: adjacent_def)

text \<open>
  Claim C3 (start-time rule).  On well-formed inputs the scheduler visits every task
  once, in priority order (ascending priority, ties by index, so that \<open>d\<close> is
  visited before \<open>t\<close> exactly when it precedes \<open>t\<close> in that order), starting from all
  start times 0.  The neighbor set of \<open>t\<close> is read from the adjacency relation: the
  tasks \<open>d\<close> with \<open>adj(t, d) = 1\<close>.  If it is not empty, the final start time of
  \<open>t\<close> is the maximum over its neighbors \<open>d\<close> of \<open>start(d) + duration(d)\<close>, taken
  with the start values current at the visit: the final value of a neighbor visited
  earlier and 0 for any other neighbor, whatever the graph (no topological traversal).
  If it is empty, \<open>t\<close> keeps start 0.  Every row built has
  \<open>Finish = Start + duration\<close>.
\<close>

theorem start_time_rule:
  assumes "well_formed n A dur dl prio descr colors"
  shows "\<exists>order st gantt.
      sorted_tasks n prio = Inr order
    \<and> set order = {0..<n} \<and> distinct order \<and> sorted_wrt (priority_before prio) order
    \<and> (\<forall>d<n. \<forall>t<n. visited_before order d t \<longleftrightarrow> priority_before prio d t)
    \<and> compute_start_times n A dur prio = Inr st
    \<and> (\<forall>t<n. {d. d < n \<and> A ! t ! d = 1} \<noteq> {} \<longrightarrow>
           st t = Some (Max ((\<lambda>d. (if visited_before order d t then the (st d) else 0)
                                  + the (dur d)) ` {d. d < n \<and> A ! t ! d = 1})))
    \<and> (\<forall>t<n. (\<forall>d<n. A ! t ! d \<noteq> 1) \<longrightarrow> st t = Some 0)
    \<and> schedule_rows n A dur prio descr colors = Inr (order, st, gantt)
    \<and> length gantt = n
    \<and> (\<forall>k<n. Start (gantt ! k) = the (st (order ! k))
            \<and> Finish (gantt ! k) = the (st (order ! k)) + the (dur (order ! k)))"
proof -
  from schedule_rows_defined[OF assms] obtain order st where s:
    "sorted_tasks n prio = Inr order"
    "compute_start_times n A dur prio = Inr st"
    "\<forall>t<n. st t = Some (start_rule A dur order st t)"
    "schedule_rows n A dur prio descr colors
        = Inr (order, st, map (expected_row descr st dur colors) order)"
    by blast
  from assms have len_A: "length A = n" by (simp add: well_formed_def)
  note ord = sorted_tasks_props(1-4)[OF s(1)]
  note adj = adjacent_entries[OF len_A]
  have busy: "\<forall>t<n. {d. d < n \<and> A ! t ! d = 1} \<noteq> {} \<longrightarrow>
           st t = Some (Max ((\<lambda>d. (if visited_before order d t then the (st d) else 0)
                                  + the (dur d)) ` {d. d < n \<and> A ! t ! d = 1}))"
  proof (intro allI impI)
    fix t assume t: "t < n" and some: "{d. d < n \<and> A ! t ! d = 1} \<noteq> {}"
    have "adjacent A t \<noteq> {}" unfolding adj by (rule some)
    with s(3) t have "st t = Some (Max ((\<lambda>d. (if visited_before order d t then the (st d) else 0)
                                  + the (dur d)) ` adjacent A t))"
      by (simp add: start_rule_def)
    then show "st t = Some (Max ((\<lambda>d. (if visited_before order d t then the (st d) else 0)
                                  + the (dur d)) ` {d. d < n \<and> A ! t ! d = 1}))"
      by (simp only: adj)
  qed
  have iso: "\<forall>t<n. (\<forall>d<n. A ! t ! d \<noteq> 1) \<longrightarrow> st t = Some 0"
  proof (intro allI impI)
    fix t assume t: "t < n" and none: "\<forall>d<n. A ! t ! d \<noteq> 1"
    from none have "adjacent A t = {}" by (auto simp: adj)
    with s(3) t show "st t = Some 0" by (simp add: start_rule_def)
  qed
  have len: "length (map (expected_row descr st dur colors) order) = n"
    using ord(3) by simp
  have rows: "\<forall>k<n. Start (map (expected_row descr st dur colors) order ! k) = the (st (order ! k))
            \<and> Finish (map (expected_row descr st dur colors) order ! k)
                = the (st (order ! k)) + the (dur (order ! k))"
    using ord(3) by (simp add: expected_row_def)
  have vis: "\<forall>d<n. \<forall>t<n. visited_before order d t \<longleftrightarrow> priority_before prio d t"
    using visited_before_sorted[OF ord(4)] ord(1) by simp
  from s(1) ord(1,2,4) vis s(2) busy iso s(4) len rows show ?thesis by blast
qed

text \<open>
  The hypothesis of C3 holds on the two-task example, whose start times are 2 and 4.
\<close>

theorem start_time_rule_witness:
  "well_formed 2 sc3_adj sc3_duration sc3_deadlines sc3_priorities sc3_descriptions [0, 1]
   \<and> start_of (compute_start_times 2 sc3_adj sc3_duration sc3_priorities) 0 = Some 2
   \<and> start_of (compute_start_times 2 sc3_adj sc3_duration sc3_priorities) 1 = Some 4
   \<and> (\<exists>order st gantt.
      sorted_tasks 2 sc3_priorities = Inr order
    \<and> set order = {0..<2} \<and> distinct order \<and> sorted_wrt (priority_before sc3_priorities) order
    \<and> (\<forall>d<2. \<forall>t<2. visited_before order d t \<longleftrightarrow> priority_before sc3_priorities d t)
    \<and> compute_start_times 2 sc3_adj sc3_duration sc3_priorities = Inr st
    \<and> (\<forall>t<2. {d. d < 2 \<and> sc3_adj ! t ! d = 1} \<noteq> {} \<longrightarrow>
           st t = Some (Max ((\<lambda>d. (if visited_before order d t then the (st d) else 0)
                                  + the (sc3_duration d)) ` {d. d < 2 \<and> sc3_adj ! t ! d = 1})))
    \<and> (\<forall>t<2. (\<forall>d<2. sc3_adj ! t ! d \<noteq> 1) \<longrightarrow> st t = Some 0)
    \<and> schedule_rows 2 sc3_adj sc3_duration sc3_priorities sc3_descriptions [0, 1]
        = Inr (order, st, gantt)
    \<and> length gantt = 2
    \<and> (\<forall>k<2. Start (gantt ! k) = the (st (order ! k))
            \<and> Finish (gantt ! k) = the (st (order ! k)) + the (sc3_duration (order ! k))))"
proof -
  have wf: "well_formed 2 sc3_adj sc3_duration sc3_deadlines sc3_priorities sc3_descriptions [0, 1]"
    by code_simp
  have s0: "start_of (compute_start_times 2 sc3_adj sc3_duration sc3_priorities) 0 = Some 2"
    by code_simp
  have s1: "start_of (compute_start_times 2 sc3_adj sc3_duration sc3_priorities) 1 = Some 4"
    by code_simp
  from wf s0 s1 start_time_rule[OF wf] show ?thesis by blast
qed

text \<open>
  Claim C7 (stable priority order).  On well-formed inputs the rows built are the
  rows of the tasks in the order of \<open>sorted_tasks\<close>, which lists every task once,
  ascending by priority with ties by index: two tasks of equal priority appear in the
  order of their indices, and the tasks of any one priority appear exactly as in
  \<open>0, 1, \<dots>, n - 1\<close>.
\<close>

theorem priority_order_stable:
  assumes "well_formed n A dur dl prio descr colors"
  shows "\<exists>order st gantt.
      sorted_tasks n prio = Inr order
    \<and> compute_start_times n A dur prio = Inr st
    \<and> schedule_rows n A dur prio descr colors = Inr (order, st, gantt)
    \<and> gantt = map (expected_row descr st dur colors) order
    \<and> set order = {0..<n} \<and> distinct order \<and> length order = n
    \<and> sorted_wrt (priority_before prio) order
    \<and> (\<forall>i j. i < j \<and> j < n \<and> prio (order ! i) = prio (order ! j) \<longrightarrow> order ! i < order ! j)
    \<and> (\<forall>p. filter (\<lambda>t. the (prio t) = p) order = filter (\<lambda>t. the (prio t) = p) [0..<n])"
proof -
  from schedule_rows_defined[OF assms] obtain order st where s:
    "sorted_tasks n prio = Inr order"
    "compute_start_times n A dur prio = Inr st"
    "schedule_rows n A dur prio descr colors
        = Inr (order, st, map (expected_row descr st dur colors) order)"
    by blast
  note ord = sorted_tasks_props[OF s(1)]
  have ties: "\<forall>i j. i < j \<and> j < n \<and> prio (order ! i) = prio (order ! j) \<longrightarrow> order ! i < order ! j"
  proof (intro allI impI)
    fix i j assume ij: "i < j \<and> j < n \<and> prio (order ! i) = prio (order ! j)"
    then have "priority_before prio (order ! i) (order ! j)"
      using ord(3,4) by (simp add: sorted_wrt_iff_nth_less)
    with ij show "order ! i < order ! j" by (simp add: priority_before_def)
  qed
  have stable: "\<forall>p. filter (\<lambda>t. the (prio t) = p) order = filter (\<lambda>t. the (prio t) = p) [0..<n]"
    using ord(5) by blast
  from s ord(1-4) ties stable show ?thesis by blast
qed

text \<open>The hypothesis of C7 holds on three tasks with a tie.\<close>

theorem priority_order_stable_witness:
  "well_formed 3 path3 tie_duration tie_deadlines tie_priorities tie_descriptions [0, 1, 0]
   \<and> (\<exists>order st gantt.
      sorted_tasks 3 tie_priorities = Inr order
    \<and> compute_start_times 3 path3 tie_duration tie_priorities = Inr st
    \<and> schedule_rows 3 path3 tie_duration tie_priorities tie_descriptions [0, 1, 0]
        = Inr (order, st, gantt)
    \<and> gantt = map (expected_row tie_descriptions st tie_duration [0, 1, 0]) order
    \<and> set order = {0..<3} \<and> distinct order \<and> length order = 3
    \<and> sorted_wrt (priority_before tie_priorities) order
    \<and> (\<forall>i j. i < j \<and> j < 3 \<and> tie_priorities (order ! i) = tie_priorities (order ! j)
           \<longrightarrow> order ! i < order ! j)
    \<and> (\<forall>p. filter (\<lambda>t. the (tie_priorities t) = p) order
           = filter (\<lambda>t. the (tie_priorities t) = p) [0..<3]))"
proof -
  have wf: "well_formed 3 path3 tie_duration tie_deadlines tie_priorities tie_descriptions [0, 1, 0]"
    by code_simp
  from wf priority_order_stable[OF wf] show ?thesis by (rule conjI)
qed

text \<open>
  Claim C4 as stated (start(1) = 2 and finish(1) = 4 for two tasks joined by one edge,
  durations 2 and 2, priorities 1 and 2) fails: the start time of task 1 is not 2.
\<close>

theorem scenario3_counterexample:
  "start_of (compute_start_times 2 sc3_adj sc3_duration sc3_priorities) 1 \<noteq> Some 2"
  by code_simp

text \<open>
  Claim C4, amended.  In that scenario task 0 is visited first and, its neighbor being
  unvisited, gets start \<open>0 + 2 = 2\<close>; task 1 then gets
  \<open>start(1) = start(0) + duration(0) = 4\<close> and \<open>finish(1) = 6\<close>.  These are the
  numbers of the rows built, and of the whole run with ten resources.
\<close>

theorem scenario3_amended:
  "sorted_tasks 2 sc3_priorities = Inr [0, 1]
   \<and> start_of (compute_start_times 2 sc3_adj sc3_duration sc3_priorities) 0 = Some 2
   \<and> start_of (compute_start_times 2 sc3_adj sc3_duration sc3_priorities) 1 = Some 4
   \<and> rows_of (schedule_rows 2 sc3_adj sc3_duration sc3_priorities sc3_descriptions [0, 1])
       = Inr ([0, 1], [(2, 4), (4, 6)])
   \<and> timeline (schedule 2 (generate_color_map 10 hex_of) sc3_adj sc3_duration sc3_deadlines
        sc3_priorities sc3_descriptions [0, 1])
       = Inr ([(2, 4), (4, 6)], [''Task 2''])"
  by code_simp

text \<open>
  The amended C4 is a run on well-formed inputs: every dictionary read by the
  scheduler is filled for both tasks and both colors are keys of the color map, so no
  error branch is taken.
\<close>

theorem scenario3_amended_witness:
  "well_formed 2 sc3_adj sc3_duration sc3_deadlines sc3_priorities sc3_descriptions [0, 1]
   \<and> colors_in_map 2 (generate_color_map 10 hex_of) [0, 1]
   \<and> (sorted_tasks 2 sc3_priorities = Inr [0, 1]
      \<and> start_of (compute_start_times 2 sc3_adj sc3_duration sc3_priorities) 0 = Some 2
      \<and> start_of (compute_start_times 2 sc3_adj sc3_duration sc3_priorities) 1 = Some 4
      \<and> rows_of (schedule_rows 2 sc3_adj sc3_duration sc3_priorities sc3_descriptions [0, 1])
          = Inr ([0, 1], [(2, 4), (4, 6)])
      \<and> timeline (schedule 2 (generate_color_map 10 hex_of) sc3_adj sc3_duration sc3_deadlines
           sc3_priorities sc3_descriptions [0, 1])
          = Inr ([(2, 4), (4, 6)], [''Task 2'']))"
proof -
  have wf: "well_formed 2 sc3_adj sc3_duration sc3_deadlines sc3_priorities sc3_descriptions [0, 1]"
    by code_simp
  have cm: "colors_in_map 2 (generate_color_map 10 hex_of) [0, 1]"
    by code_simp
  from wf cm scenario3_amended show ?thesis by blast
qed

subsection \<open>The overdue list and the chart loop\<close>

lemma overdue_zip:
  "map task_label (filter (is_overdue st dur dl) order)
     = map (\<lambda>(t, row). task_label t)
         (filter (\<lambda>(t, row). Finish row > the (dl t))
            (zip order (map (expected_row descr st dur colors) order)))"
  by (induction order) (simp_all add: is_overdue_def expected_row_def)

text \<open>
  What the comprehension building the overdue list yields when \<^verbatim>\<open>main\<close> reaches it,
  that is when every assigned color is a key of the color map: the labels, in priority
  order, of exactly the tasks whose finish time exceeds their deadline.
\<close>

lemma overdue_list_when_reached:
  assumes "well_formed n A dur dl prio descr colors" and "colors_in_map n cm colors"
  shows "\<exists>order st gantt chart overdue.
      schedule_rows n A dur prio descr colors = Inr (order, st, gantt)
    \<and> set order = {0..<n} \<and> sorted_wrt (priority_before prio) order
    \<and> schedule n cm A dur dl prio descr colors = Inr (gantt, chart, overdue)
    \<and> (\<forall>t<n. task_label t \<in> set overdue \<longleftrightarrow> the (st t) + the (dur t) > the (dl t))
    \<and> (\<forall>l \<in> set overdue. \<exists>t<n. l = task_label t)
    \<and> length gantt = length order
    \<and> overdue = map (\<lambda>(t, row). task_label t)
                  (filter (\<lambda>(t, row). Finish row > the (dl t)) (zip order gantt))"
proof -
  from schedule_completes[OF assms] obtain order st chart where s:
    "schedule_rows n A dur prio descr colors
        = Inr (order, st, map (expected_row descr st dur colors) order)"
    "sorted_tasks n prio = Inr order"
    "schedule n cm A dur dl prio descr colors
        = Inr (map (expected_row descr st dur colors) order, chart,
               map task_label (filter (is_overdue st dur dl) order))"
    by blast
  define gantt where "gantt = map (expected_row descr st dur colors) order"
  define overdue where "overdue = map task_label (filter (is_overdue st dur dl) order)"
  note ord = sorted_tasks_props(1,4)[OF s(2)]
  have mem: "\<forall>t<n. task_label t \<in> set overdue \<longleftrightarrow> the (st t) + the (dur t) > the (dl t)"
  proof (intro allI impI)
    fix t assume t: "t < n"
    have "task_label t \<in> set overdue \<longleftrightarrow> t \<in> set (filter (is_overdue st dur dl) order)"
      unfolding overdue_def using task_label_inj by (auto simp: image_iff)
    also have "\<dots> \<longleftrightarrow> the (st t) + the (dur t) > the (dl t)"
      using t ord(1) by (simp add: is_overdue_def)
    finally show "task_label t \<in> set overdue \<longleftrightarrow> the (st t) + the (dur t) > the (dl t)" .
  qed
  have only: "\<forall>l \<in> set overdue. \<exists>t<n. l = task_label t"
    using ord(1) by (auto simp: overdue_def)
  have len: "length gantt = length order" by (simp add: gantt_def)
  have zip: "overdue = map (\<lambda>(t, row). task_label t)
                  (filter (\<lambda>(t, row). Finish row > the (dl t)) (zip order gantt))"
    unfolding overdue_def gantt_def by (rule overdue_zip)
  have rows: "schedule_rows n A dur prio descr colors = Inr (order, st, gantt)"
    using s(1) by (simp add: gantt_def)
  have run: "schedule n cm A dur dl prio descr colors = Inr (gantt, chart, overdue)"
    using s(3) by (simp add: gantt_def overdue_def)
  from rows ord run mem only len zip show ?thesis by blast
qed

text \<open>
  The start and finish numbers of the rows do not depend on the colors or on the
  descriptions, and neither does the overdue list in the runs that reach it.
\<close>

lemma rows_independent_of_colors:
  assumes "well_formed n A dur dl1 prio descr1 colors1"
    and "well_formed n A dur dl2 prio descr2 colors2"
  shows "\<exists>numbers. rows_of (schedule_rows n A dur prio descr1 colors1) = Inr numbers
              \<and> rows_of (schedule_rows n A dur prio descr2 colors2) = Inr numbers"
proof -
  from schedule_rows_defined[OF assms(1)] obtain order st where s1:
    "sorted_tasks n prio = Inr order"
    "compute_start_times n A dur prio = Inr st"
    "schedule_rows n A dur prio descr1 colors1
        = Inr (order, st, map (expected_row descr1 st dur colors1) order)"
    by blast
  from schedule_rows_defined[OF assms(2)] s1(1,2) have s2:
    "schedule_rows n A dur prio descr2 colors2
        = Inr (order, st, map (expected_row descr2 st dur colors2) order)"
    by auto
  have "rows_of (schedule_rows n A dur prio descr1 colors1)
      = Inr (order, map (\<lambda>t. (the (st t), the (st t) + the (dur t))) order)"
    unfolding s1(3) by (simp add: rows_of_def row_numbers_def expected_row_def comp_def)
  moreover have "rows_of (schedule_rows n A dur prio descr2 colors2)
      = Inr (order, map (\<lambda>t. (the (st t), the (st t) + the (dur t))) order)"
    unfolding s2 by (simp add: rows_of_def row_numbers_def expected_row_def comp_def)
  ultimately show ?thesis by blast
qed

lemma timeline_independent_when_reached:
  assumes "well_formed n A dur dl prio descr1 colors1" and "colors_in_map n cm colors1"
    and "well_formed n A dur dl prio descr2 colors2" and "colors_in_map n cm colors2"
  shows "\<exists>numbers. timeline (schedule n cm A dur dl prio descr1 colors1) = Inr numbers
              \<and> timeline (schedule n cm A dur dl prio descr2 colors2) = Inr numbers"
proof -
  from schedule_completes[OF assms(1,2)] obtain order st chart1 where s1:
    "schedule_rows n A dur prio descr1 colors1
        = Inr (order, st, map (expected_row descr1 st dur colors1) order)"
    "schedule n cm A dur dl prio descr1 colors1
        = Inr (map (expected_row descr1 st dur colors1) order, chart1,
               map task_label (filter (is_overdue st dur dl) order))"
    by blast
  from schedule_completes[OF assms(3,4)] obtain order' st' chart2 where s2:
    "schedule_rows n A dur prio descr2 colors2
        = Inr (order', st', map (expected_row descr2 st' dur colors2) order')"
    "schedule n cm A dur dl prio descr2 colors2
        = Inr (map (expected_row descr2 st' dur colors2) order', chart2,
               map task_label (filter (is_overdue st' dur dl) order'))"
    by blast
  from schedule_rows_defined[OF assms(1)] s1(1) have a: "sorted_tasks n prio = Inr order"
    "compute_start_times n A dur prio = Inr st" by auto
  from schedule_rows_defined[OF assms(3)] s2(1) have b: "sorted_tasks n prio = Inr order'"
    "compute_start_times n A dur prio = Inr st'" by auto
  from a b have same: "order' = order" "st' = st" by simp_all
  define numbers where "numbers =
    (map (\<lambda>t. (the (st t), the (st t) + the (dur t))) order,
     map task_label (filter (is_overdue st dur dl) order))"
  have "timeline (schedule n cm A dur dl prio descr1 colors1) = Inr numbers"
    unfolding s1(2)
    by (simp add: timeline_def row_numbers_def numbers_def expected_row_def comp_def)
  moreover have "timeline (schedule n cm A dur dl prio descr2 colors2) = Inr numbers"
    unfolding s2(2) same
    by (simp add: timeline_def row_numbers_def numbers_def expected_row_def comp_def)
  ultimately show ?thesis by blast
qed

text \<open>
  Claim C5 (overdue list: a task is in the overdue output exactly when its finish time
  exceeds its deadline, reported in priority order).  \<^verbatim>\<open>main\<close> breaks it on the
  triangle with two resources.  The coloring assigns the colors 0, 1, 2; the rows are
  built with finish times 2, 3, 4 against deadlines 1, 1, 1; the chart loop then looks
  up color 2 in a color map with the keys 0 and 1 and raises KeyError, so the overdue
  list is never built although all three tasks are late.  With three resources the
  same run reports all three tasks.
\<close>

theorem overdue_list_not_built:
  "greedy_coloring k3 = Inr [0, 1, 2]
   \<and> rows_of (schedule_rows 3 k3 ones3 ones3 tie_descriptions [0, 1, 2])
       = Inr ([0, 1, 2], [(1, 2), (2, 3), (3, 4)])
   \<and> main_allocation 3 2 hex_of k3 ones3 ones3 ones3 tie_descriptions = Inl KeyError
   \<and> timeline (main_allocation 3 3 hex_of k3 ones3 ones3 ones3 tie_descriptions)
       = Inr ([(1, 2), (2, 3), (3, 4)], [''Task 1'', ''Task 2'', ''Task 3''])"
  by code_simp

text \<open>
  The run of C5 is on well-formed inputs; only the color 2 is missing from the color
  map with two keys.
\<close>

theorem overdue_list_not_built_witness:
  "well_formed 3 k3 ones3 ones3 ones3 tie_descriptions [0, 1, 2]
   \<and> \<not> colors_in_map 3 (generate_color_map 2 hex_of) [0, 1, 2]
   \<and> colors_in_map 3 (generate_color_map 3 hex_of) [0, 1, 2]
   \<and> (greedy_coloring k3 = Inr [0, 1, 2]
      \<and> rows_of (schedule_rows 3 k3 ones3 ones3 tie_descriptions [0, 1, 2])
          = Inr ([0, 1, 2], [(1, 2), (2, 3), (3, 4)])
      \<and> main_allocation 3 2 hex_of k3 ones3 ones3 ones3 tie_descriptions = Inl KeyError
      \<and> timeline (main_allocation 3 3 hex_of k3 ones3 ones3 ones3 tie_descriptions)
          = Inr ([(1, 2), (2, 3), (3, 4)], [''Task 1'', ''Task 2'', ''Task 3'']))"
proof -
  have wf: "well_formed 3 k3 ones3 ones3 ones3 tie_descriptions [0, 1, 2]"
    by code_simp
  have out: "\<not> colors_in_map 3 (generate_color_map 2 hex_of) [0, 1, 2]"
    by code_simp
  have inside: "colors_in_map 3 (generate_color_map 3 hex_of) [0, 1, 2]"
    by code_simp
  from wf out inside overdue_list_not_built show ?thesis by blast
qed



text \<open>
  Claim C8 as stated (the coloring called with \<open>n < 1\<close> fails and produces no
  assignment) fails: on the empty matrix \<^const>\<open>greedy_coloring\<close> returns the empty
  assignment and no error.
\<close>

theorem empty_graph_counterexample:
  "greedy_coloring [] = Inr [] \<and> \<not> isl (greedy_coloring [])"
  by code_simp

text \<open>
  Claim C8, amended.  The test for \<open>n < 1\<close> is made by \<^const>\<open>generate_graph\<close>,
  before the coloring: it reports that the number of nodes must be at least 1 and
  returns no graph, and \<^verbatim>\<open>main\<close> then does not call the coloring, so no
  assignment is produced.  \<^const>\<open>greedy_coloring\<close> itself makes no such test and
  returns the empty assignment on the empty matrix.
\<close>

theorem invalid_node_count:
  assumes "n_nodes < 1"
  shows "generate_graph n_nodes prob sample = ([''Number of nodes must be at least 1!''], None)
       \<and> snd (main_coloring n_nodes prob sample) = None
       \<and> greedy_coloring [] = Inr []"
  using assms by (simp add: generate_graph_def main_coloring_def greedy_coloring_def)

text \<open>The hypothesis of the amended C8 holds for \<open>n = 0\<close>.\<close>

theorem invalid_node_count_witness:
  "(0::int) < 1
   \<and> generate_graph 0 (1 / 2) [] = ([''Number of nodes must be at least 1!''], None)
   \<and> snd (main_coloring 0 (1 / 2) []) = None
   \<and> greedy_coloring [] = Inr []"
proof -
  have h: "(0::int) < 1" by simp
  from h invalid_node_count[OF h, of "1 / 2" "[]"] show ?thesis by (rule conjI)
qed

end
